theory Spec2Isabelle
  imports Main "HOL-Library.Sublist" "HOL-Library.AList" "HOL-Library.List_Lexorder"
    "HOL-Library.Char_ord"
begin

section \<open>Values, keyword arguments, exceptions\<close>

text \<open>
  The module \<^verbatim>\<open>iris/io/class_configs.py\<close> is embedded shallowly. Python objects that
  are shared and mutated (hook lists, hook objects) live in an explicit store; everything
  else is a value. An address is a natural number.
\<close>

type_synonym addr = nat

text \<open>
  The values a keyword argument can hold (\<^verbatim>\<open>Any\<close>): atoms, and a reference to a list
  object holding hooks (\<^verbatim>\<open>List[Callback]\<close>).
\<close>

datatype val = NoneV | BoolV bool | IntV int | StrV string | ListRef addr

text \<open>
  A \<^verbatim>\<open>**kwargs\<close> dictionary: an association list, read with \<^const>\<open>map_of\<close>; a key is
  deleted with \<^const>\<open>AList.delete\<close>.
\<close>

type_synonym kwargs = "(string \<times> val) list"

text \<open>The \<^verbatim>\<open>*args, **kwargs\<close> of a call.\<close>

record call_args =
  pos_args :: "val list"
  kw_args :: kwargs

text \<open>
  Exceptions, by Python class. \<open>ValidationError\<close> carries the name of the model and the
  locations (field names) of its errors; the others carry their message.
\<close>

datatype error =
    RuntimeError string
  | NotImplementedError string
  | ValueError string
  | TypeError string
  | AttributeError string
  | ValidationError string "string list"
  | ErrorDuringImport string
  | Exception string

fun error_message :: "error \<Rightarrow> string" where
  "error_message (RuntimeError m) = m"
| "error_message (NotImplementedError m) = m"
| "error_message (ValueError m) = m"
| "error_message (TypeError m) = m"
| "error_message (AttributeError m) = m"
| "error_message (ValidationError n locs) = n"
| "error_message (ErrorDuringImport m) = m"
| "error_message (Exception m) = m"

text \<open>An exception names a type, or an identifier, when that name occurs in its message.\<close>

definition names_type :: "error \<Rightarrow> string \<Rightarrow> bool" where
  "names_type e n = sublist n (error_message e)"

definition quoted :: "string \<Rightarrow> string" where
  "quoted s = CHR 0x27 # s @ [CHR 0x27]"

definition dquoted :: "string \<Rightarrow> string" where
  "dquoted s = CHR 0x22 # s @ [CHR 0x22]"

section \<open>The store\<close>

text \<open>
  One store per kind of object, in the style of Burstall: list objects hold the
  addresses of hook objects, hook objects hold a state of type \<open>'h\<close>. A new object is
  allocated at \<open>next_free\<close>.
\<close>

record 'h heap =
  list_objs :: "addr \<Rightarrow> addr list"
  hook_objs :: "addr \<Rightarrow> 'h"
  next_free :: addr

definition new_list :: "'h heap \<Rightarrow> addr list \<Rightarrow> 'h heap \<times> addr" where
  "new_list h xs =
     (h\<lparr>list_objs := (list_objs h)(next_free h := xs), next_free := Suc (next_free h)\<rparr>,
      next_free h)"

definition new_hook :: "'h heap \<Rightarrow> 'h \<Rightarrow> 'h heap \<times> addr" where
  "new_hook h s =
     (h\<lparr>hook_objs := (hook_objs h)(next_free h := s), next_free := Suc (next_free h)\<rparr>,
      next_free h)"

section \<open>Classes and instances\<close>

text \<open>
  An instance of a configuration record: the name of its class
  (\<^verbatim>\<open>self.__class__.__name__\<close>) and its \<^verbatim>\<open>__dict__\<close>.
\<close>

record model_instance =
  inst_class :: string
  inst_dict :: "(string \<times> val) list"

text \<open>
  A declared field: its name, its default (\<open>None\<close> for a required field) and its
  validator, which returns the validated (possibly coerced) value or \<open>None\<close> when the
  value does not fit the declared type.
\<close>

record field =
  field_name :: string
  field_default :: "val option"
  field_validate :: "val \<Rightarrow> val option"

text \<open>
  A subclass of \<^verbatim>\<open>ImmutableModel\<close>: its name, its declared fields, and its own
  \<^verbatim>\<open>serialize\<close> and \<^verbatim>\<open>deserialize\<close> when it overrides them.
\<close>

record model_class =
  model_name :: string
  model_fields :: "field list"
  model_serialize :: "(model_instance \<Rightarrow> error + val) option"
  model_deserialize :: "(val \<Rightarrow> error + val) option"

text \<open>An \<^verbatim>\<open>Algorithm\<close> object: \<^verbatim>\<open>self._callbacks\<close> and \<^verbatim>\<open>self.params\<close>.\<close>

record node =
  node_class :: string
  callbacks :: val
  params :: model_instance

text \<open>
  A subclass of \<^verbatim>\<open>Algorithm\<close>: its name, its \<^verbatim>\<open>__parameters_type__\<close> and its own
  \<^verbatim>\<open>run\<close> when it overrides it.
\<close>

record algorithm_class =
  alg_name :: string
  parameters_type :: model_class
  alg_run :: "(node \<Rightarrow> call_args \<Rightarrow> error + val) option"

text \<open>
  The \<^verbatim>\<open>Callback\<close> interface (imported, not part of the module): a callback reads
  and updates the state of its own hook object and may raise.
\<close>

record 'h Callback =
  on_execute_start :: "'h \<Rightarrow> call_args \<Rightarrow> 'h \<times> error option"
  on_execute_end :: "'h \<Rightarrow> val \<Rightarrow> 'h \<times> error option"

section \<open>\<^verbatim>\<open>ImmutableModel.serialize\<close>, \<^verbatim>\<open>ImmutableModel.deserialize\<close>, \<^verbatim>\<open>Algorithm.run\<close>\<close>

definition ImmutableModel_serialize :: "model_instance \<Rightarrow> error + val" where
  "ImmutableModel_serialize self =
     Inl (RuntimeError (inst_class self @ ''.serialize not implemented!''))"

text \<open>A static method: it has no \<^verbatim>\<open>self\<close> and formats the name of \<^verbatim>\<open>ImmutableModel\<close>.\<close>

definition ImmutableModel_deserialize :: "val \<Rightarrow> error + val" where
  "ImmutableModel_deserialize data =
     Inl (RuntimeError (''ImmutableModel'' @ ''.deserialize not implemented!''))"

definition Algorithm_run :: "node \<Rightarrow> call_args \<Rightarrow> error + val" where
  "Algorithm_run self a =
     Inl (NotImplementedError (node_class self @ ''.run method not implemented!''))"

text \<open>Method lookup: the override of the class when there is one, the base method otherwise.\<close>

definition serialize :: "model_class \<Rightarrow> model_instance \<Rightarrow> error + val" where
  "serialize cls self =
     (case model_serialize cls of None \<Rightarrow> ImmutableModel_serialize self | Some f \<Rightarrow> f self)"

definition deserialize :: "model_class \<Rightarrow> val \<Rightarrow> error + val" where
  "deserialize cls data =
     (case model_deserialize cls of None \<Rightarrow> ImmutableModel_deserialize data | Some f \<Rightarrow> f data)"

definition run :: "algorithm_class \<Rightarrow> node \<Rightarrow> call_args \<Rightarrow> error + val" where
  "run C self a = (case alg_run C of None \<Rightarrow> Algorithm_run self a | Some f \<Rightarrow> f self a)"

section \<open>\<^verbatim>\<open>Algorithm.execute\<close> and \<^verbatim>\<open>Algorithm.__call__\<close>\<close>

text \<open>What a call of \<^verbatim>\<open>execute\<close> lets an observer see, in order.\<close>

datatype event =
    OnExecuteStart addr call_args
  | Run call_args
  | OnExecuteEnd addr val

text \<open>
  \<^verbatim>\<open>for callback_func in self._callbacks\<close>: the elements of a list object; an empty
  string has no elements; a character of a string has no callback attribute; the other
  atoms are not iterable.
\<close>

fun iter_callbacks :: "'h heap \<Rightarrow> val \<Rightarrow> error + addr list" where
  "iter_callbacks h (ListRef l) = Inr (list_objs h l)"
| "iter_callbacks h (StrV s) =
     (if s = [] then Inr []
      else Inl (AttributeError (quoted ''str'' @ '' object has no attribute ''
                  @ quoted ''on_execute_start'')))"
| "iter_callbacks h NoneV = Inl (TypeError (quoted ''NoneType'' @ '' object is not iterable''))"
| "iter_callbacks h (BoolV b) = Inl (TypeError (quoted ''bool'' @ '' object is not iterable''))"
| "iter_callbacks h (IntV i) = Inl (TypeError (quoted ''int'' @ '' object is not iterable''))"

text \<open>
  The first loop of \<^verbatim>\<open>execute\<close>. It returns the store, the calls made and the exception
  that stopped it, if any.
\<close>

fun start_loop ::
  "'h Callback \<Rightarrow> 'h heap \<Rightarrow> call_args \<Rightarrow> addr list \<Rightarrow> 'h heap \<times> event list \<times> error option"
where
  "start_loop cb h a [] = (h, [], None)"
| "start_loop cb h a (x # xs) =
     (case on_execute_start cb (hook_objs h x) a of
        (s, Some e) \<Rightarrow> (h\<lparr>hook_objs := (hook_objs h)(x := s)\<rparr>, [OnExecuteStart x a], Some e)
      | (s, None) \<Rightarrow>
          (case start_loop cb (h\<lparr>hook_objs := (hook_objs h)(x := s)\<rparr>) a xs of
             (h', tr, r) \<Rightarrow> (h', OnExecuteStart x a # tr, r)))"

text \<open>The second loop of \<^verbatim>\<open>execute\<close>.\<close>

fun end_loop ::
  "'h Callback \<Rightarrow> 'h heap \<Rightarrow> val \<Rightarrow> addr list \<Rightarrow> 'h heap \<times> event list \<times> error option"
where
  "end_loop cb h res [] = (h, [], None)"
| "end_loop cb h res (x # xs) =
     (case on_execute_end cb (hook_objs h x) res of
        (s, Some e) \<Rightarrow> (h\<lparr>hook_objs := (hook_objs h)(x := s)\<rparr>, [OnExecuteEnd x res], Some e)
      | (s, None) \<Rightarrow>
          (case end_loop cb (h\<lparr>hook_objs := (hook_objs h)(x := s)\<rparr>) res xs of
             (h', tr, r) \<Rightarrow> (h', OnExecuteEnd x res # tr, r)))"

text \<open>
  \<^verbatim>\<open>execute\<close> returns the node, the store, the calls it made and either the exception
  it raised or the value it returned.
\<close>

definition execute ::
  "algorithm_class \<Rightarrow> 'h Callback \<Rightarrow> 'h heap \<Rightarrow> node \<Rightarrow> call_args
     \<Rightarrow> node \<times> 'h heap \<times> event list \<times> (error + val)"
where
  "execute C cb h self a =
     (case iter_callbacks h (callbacks self) of
        Inl e \<Rightarrow> (self, h, [], Inl e)
      | Inr hs \<Rightarrow>
          (case start_loop cb h a hs of
             (h1, tr1, Some e) \<Rightarrow> (self, h1, tr1, Inl e)
           | (h1, tr1, None) \<Rightarrow>
               (case run C self a of
                  Inl e \<Rightarrow> (self, h1, tr1 @ [Run a], Inl e)
                | Inr result \<Rightarrow>
                    (case iter_callbacks h1 (callbacks self) of
                       Inl e \<Rightarrow> (self, h1, tr1 @ [Run a], Inl e)
                     | Inr hs' \<Rightarrow>
                         (case end_loop cb h1 result hs' of
                            (h2, tr2, Some e) \<Rightarrow> (self, h2, tr1 @ [Run a] @ tr2, Inl e)
                          | (h2, tr2, None) \<Rightarrow> (self, h2, tr1 @ [Run a] @ tr2, Inr result))))))"

definition call ::
  "algorithm_class \<Rightarrow> 'h Callback \<Rightarrow> 'h heap \<Rightarrow> node \<Rightarrow> call_args
     \<Rightarrow> node \<times> 'h heap \<times> event list \<times> (error + val)"
where
  "call C cb h self a = execute C cb h self a"

section \<open>Configuration records: \<^verbatim>\<open>ImmutableModel.Config\<close>\<close>

datatype Extra = Extra_allow | Extra_ignore | Extra_forbid

record Config =
  arbitrary_types_allowed :: bool
  allow_mutation :: bool
  validate_all :: bool
  smart_union :: bool
  extra :: Extra
  keep_untouched :: "string list"

definition ImmutableModel_Config :: Config where
  "ImmutableModel_Config =
     \<lparr>arbitrary_types_allowed = True, allow_mutation = False, validate_all = True,
      smart_union = True, extra = Extra_ignore, keep_untouched = [''cached_property'']\<rparr>"

text \<open>
  Modelled from the spec: \<^verbatim>\<open>pydantic\<close>'s validation of the declared fields, which reads
  the options of \<open>Config\<close>; the module imports it and declares only the options. A field with no
  supplied value takes its default, and a required field with no value is an error; the
  default is validated only under \<open>validate_all\<close>. The result is the validated values
  and the locations of the errors, both in declaration order.
\<close>

fun validate_fields :: "Config \<Rightarrow> kwargs \<Rightarrow> field list \<Rightarrow> (string \<times> val) list \<times> string list" where
  "validate_fields cfg data [] = ([], [])"
| "validate_fields cfg data (f # fs) =
     (case validate_fields cfg data fs of
        (values, errors) \<Rightarrow>
          (case map_of data (field_name f) of
             None \<Rightarrow>
               (case field_default f of
                  None \<Rightarrow> (values, field_name f # errors)
                | Some d \<Rightarrow>
                    if validate_all cfg then
                      (case field_validate f d of
                         None \<Rightarrow> (values, field_name f # errors)
                       | Some v \<Rightarrow> ((field_name f, v) # values, errors))
                    else ((field_name f, d) # values, errors))
           | Some x \<Rightarrow>
               (case field_validate f x of
                  None \<Rightarrow> (values, field_name f # errors)
                | Some v \<Rightarrow> ((field_name f, v) # values, errors))))"

text \<open>Whether a name is one of the declared fields.\<close>

definition is_declared :: "field list \<Rightarrow> string \<Rightarrow> bool" where
  "is_declared fs k = (k \<in> set (map field_name fs))"

text \<open>
  Modelled from the spec: \<^verbatim>\<open>pydantic\<close>'s validation of the whole input, which the module
  imports: the declared fields, then the names that are not declared, which are dropped,
  kept or rejected according to \<open>extra\<close>.
\<close>

definition validate_model ::
  "Config \<Rightarrow> field list \<Rightarrow> kwargs \<Rightarrow> (string \<times> val) list \<times> string list"
where
  "validate_model cfg fs data =
     (case validate_fields cfg data fs of
        (values, errors) \<Rightarrow>
          (case extra cfg of
             Extra_ignore \<Rightarrow> (values, errors)
           | Extra_allow \<Rightarrow>
               (values @ filter (\<lambda>(k, v). \<not> is_declared fs k) (AList.clearjunk data), errors)
           | Extra_forbid \<Rightarrow>
               (values,
                errors @ sort (filter (\<lambda>k. \<not> is_declared fs k) (remdups (map fst data))))))"

text \<open>
  Modelled from the spec: the constructor of \<^verbatim>\<open>pydantic.BaseModel\<close>, which the module
  imports: it raises \<open>ValidationError\<close> when validation found an error and otherwise stores the
  validated values.
\<close>

definition BaseModel_init :: "Config \<Rightarrow> model_class \<Rightarrow> kwargs \<Rightarrow> error + model_instance" where
  "BaseModel_init cfg cls data =
     (case validate_model cfg (model_fields cls) data of
        (values, []) \<Rightarrow> Inr \<lparr>inst_class = model_name cls, inst_dict = values\<rparr>
      | (values, e # es) \<Rightarrow> Inl (ValidationError (model_name cls) (e # es)))"

text \<open>
  Modelled from the spec: \<^verbatim>\<open>pydantic.BaseModel.__setattr__\<close>, which the module imports. It returns
  the record and the exception raised, if any: a name that is no field is refused unless
  \<open>extra\<close> allows it, and any assignment is refused when \<open>allow_mutation\<close> is off.
\<close>

definition BaseModel_setattr ::
  "Config \<Rightarrow> model_class \<Rightarrow> model_instance \<Rightarrow> string \<Rightarrow> val \<Rightarrow> model_instance \<times> error option"
where
  "BaseModel_setattr cfg cls self name v =
     (if extra cfg \<noteq> Extra_allow \<and> \<not> is_declared (model_fields cls) name then
        (self, Some (ValueError (dquoted (inst_class self) @ '' object has no field ''
                                   @ dquoted name)))
      else if \<not> allow_mutation cfg then
        (self, Some (TypeError (dquoted (inst_class self)
                                  @ '' is immutable and does not support item assignment'')))
      else (self\<lparr>inst_dict := AList.update name v (inst_dict self)\<rparr>, None))"

text \<open>Every subclass of \<^verbatim>\<open>ImmutableModel\<close> inherits its \<open>Config\<close>.\<close>

definition ImmutableModel_init :: "model_class \<Rightarrow> kwargs \<Rightarrow> error + model_instance" where
  "ImmutableModel_init cls data = BaseModel_init ImmutableModel_Config cls data"

definition ImmutableModel_setattr ::
  "model_class \<Rightarrow> model_instance \<Rightarrow> string \<Rightarrow> val \<Rightarrow> model_instance \<times> error option"
where
  "ImmutableModel_setattr cls self name v = BaseModel_setattr ImmutableModel_Config cls self name v"

text \<open>Reading an attribute of a record.\<close>

definition getattr :: "model_instance \<Rightarrow> string \<Rightarrow> val option" where
  "getattr self name = map_of (inst_dict self) name"

section \<open>\<^verbatim>\<open>Algorithm.__init__\<close>\<close>

text \<open>
  \<^verbatim>\<open>copy.deepcopy\<close> on the elements of a hook list: each hook object is copied to a new
  object once; the memo maps an object already copied to its copy.
\<close>

fun deepcopy_hooks ::
  "'h heap \<Rightarrow> (addr \<times> addr) list \<Rightarrow> addr list \<Rightarrow> 'h heap \<times> (addr \<times> addr) list \<times> addr list"
where
  "deepcopy_hooks h memo [] = (h, memo, [])"
| "deepcopy_hooks h memo (x # xs) =
     (case map_of memo x of
        Some y \<Rightarrow>
          (case deepcopy_hooks h memo xs of (h', memo', ys) \<Rightarrow> (h', memo', y # ys))
      | None \<Rightarrow>
          (case new_hook h (hook_objs h x) of
             (h1, y) \<Rightarrow>
               (case deepcopy_hooks h1 ((x, y) # memo) xs of
                  (h', memo', ys) \<Rightarrow> (h', memo', y # ys))))"

text \<open>
  \<^verbatim>\<open>copy.deepcopy\<close> on a value: an atom is returned as it is; a list is copied to a
  new list object that holds the copies of its elements.
\<close>

definition deepcopy :: "'h heap \<Rightarrow> val \<Rightarrow> 'h heap \<times> val" where
  "deepcopy h v =
     (case v of
        ListRef l \<Rightarrow>
          (case new_list h [] of
             (h1, y) \<Rightarrow>
               (case deepcopy_hooks h1 [] (list_objs h1 l) of
                  (h2, memo, ys) \<Rightarrow> (h2\<lparr>list_objs := (list_objs h2)(y := ys)\<rparr>, ListRef y)))
      | _ \<Rightarrow> (h, v))"

text \<open>
  The constructor returns the store and either the exception raised or the new node.
\<close>

definition Algorithm_init ::
  "algorithm_class \<Rightarrow> 'h heap \<Rightarrow> kwargs \<Rightarrow> 'h heap \<times> (error + node)"
where
  "Algorithm_init C h kwargs =
     (case new_list h [] of
        (h0, l0) \<Rightarrow>
          (case (case map_of kwargs ''callbacks'' of
                   None \<Rightarrow> (h0, ListRef l0, kwargs)
                 | Some v \<Rightarrow>
                     (case deepcopy h0 v of
                        (h1, c) \<Rightarrow> (h1, c, AList.delete ''callbacks'' kwargs))) of
             (h1, c, kwargs') \<Rightarrow>
               (case ImmutableModel_init (parameters_type C) kwargs' of
                  Inl e \<Rightarrow> (h1, Inl e)
                | Inr p \<Rightarrow> (h1, Inr \<lparr>node_class = alg_name C, callbacks = c, params = p\<rparr>))))"

section \<open>\<^verbatim>\<open>instantiate_class_from_name\<close>\<close>

text \<open>
  \<^verbatim>\<open>pydoc.locate\<close> and the call of the located object are parameters: \<open>locate\<close> returns
  the object found, \<open>None\<close> when there is none, or raises; \<open>construct\<close> calls the
  object with the keyword arguments, in a state \<open>'s\<close>.
\<close>

definition instantiate_class_from_name ::
  "(string \<Rightarrow> error + 'c option) \<Rightarrow> ('c \<Rightarrow> kwargs \<Rightarrow> 's \<Rightarrow> 's \<times> (error + 'x))
     \<Rightarrow> string \<Rightarrow> kwargs \<Rightarrow> 's \<Rightarrow> 's \<times> (error + 'x)"
where
  "instantiate_class_from_name locate construct class_name kwargs s =
     (case locate class_name of
        Inl e \<Rightarrow> (s, Inl e)
      | Inr None \<Rightarrow> (s, Inl (ValueError (''Could not locate class '' @ class_name)))
      | Inr (Some object_class) \<Rightarrow> construct object_class kwargs s)"

section \<open>The caller's later writes\<close>

text \<open>
  What code outside the node can do to an object it holds: replace the content of a list
  object (append, remove, reorder, clear) or the state of a hook object.
\<close>

datatype 'h mutation = SetList addr "addr list" | SetHook addr 'h

fun mut_addr :: "'h mutation \<Rightarrow> addr" where
  "mut_addr (SetList l xs) = l"
| "mut_addr (SetHook x s) = x"

fun apply_mutation :: "'h mutation \<Rightarrow> 'h heap \<Rightarrow> 'h heap" where
  "apply_mutation (SetList l xs) h = h\<lparr>list_objs := (list_objs h)(l := xs)\<rparr>"
| "apply_mutation (SetHook x s) h = h\<lparr>hook_objs := (hook_objs h)(x := s)\<rparr>"

definition apply_mutations :: "'h mutation list \<Rightarrow> 'h heap \<Rightarrow> 'h heap" where
  "apply_mutations ms h = fold apply_mutation ms h"

section \<open>Reading the outcome of a call\<close>

definition node_of :: "node \<times> 'h heap \<times> event list \<times> (error + val) \<Rightarrow> node" where
  "node_of r = fst r"

definition heap_of :: "node \<times> 'h heap \<times> event list \<times> (error + val) \<Rightarrow> 'h heap" where
  "heap_of r = fst (snd r)"

definition trace_of :: "node \<times> 'h heap \<times> event list \<times> (error + val) \<Rightarrow> event list" where
  "trace_of r = fst (snd (snd r))"

definition result_of :: "node \<times> 'h heap \<times> event list \<times> (error + val) \<Rightarrow> error + val" where
  "result_of r = snd (snd (snd r))"

section \<open>Concrete classes\<close>

text \<open>\<^verbatim>\<open>Algorithm.Parameters\<close> and \<^verbatim>\<open>Algorithm\<close> itself, as the module declares them.\<close>

definition Parameters_class :: model_class where
  "Parameters_class =
     \<lparr>model_name = ''Parameters'', model_fields = [], model_serialize = None,
      model_deserialize = None\<rparr>"

definition Algorithm_class :: algorithm_class where
  "Algorithm_class =
     \<lparr>alg_name = ''Algorithm'', parameters_type = Parameters_class, alg_run = None\<rparr>"

text \<open>
  A node type \<^verbatim>\<open>Adder\<close> with one field \<^verbatim>\<open>increment: int = 1\<close>, whose \<^verbatim>\<open>run(x)\<close> returns
  \<^verbatim>\<open>x + self.params.increment\<close>.
\<close>

definition int_field :: "string \<Rightarrow> val option \<Rightarrow> field" where
  "int_field n d =
     \<lparr>field_name = n, field_default = d,
      field_validate = (\<lambda>v. case v of IntV i \<Rightarrow> Some (IntV i) | _ \<Rightarrow> None)\<rparr>"

definition Adder_Parameters :: model_class where
  "Adder_Parameters =
     \<lparr>model_name = ''Parameters'', model_fields = [int_field ''increment'' (Some (IntV 1))],
      model_serialize = None, model_deserialize = None\<rparr>"

definition Adder_run :: "node \<Rightarrow> call_args \<Rightarrow> error + val" where
  "Adder_run self a =
     (case (pos_args a, getattr (params self) ''increment'') of
        ([IntV x], Some (IntV i)) \<Rightarrow> Inr (IntV (x + i))
      | _ \<Rightarrow> Inl (TypeError ''unsupported operand''))"

definition Adder_class :: algorithm_class where
  "Adder_class =
     \<lparr>alg_name = ''Adder'', parameters_type = Adder_Parameters, alg_run = Some Adder_run\<rparr>"

text \<open>
  A hook whose state says whether it is armed: an armed hook raises in
  \<^verbatim>\<open>on_execute_start\<close>.
\<close>

definition armed_Callback :: "bool Callback" where
  "armed_Callback =
     \<lparr>on_execute_start = (\<lambda>s a. (s, if s then Some (Exception ''hook failed'') else None)),
      on_execute_end = (\<lambda>s r. (s, None))\<rparr>"

text \<open>A store with the list object \<open>[1, 2]\<close> at address 0 and hooks at 1 and 2.\<close>

definition two_hooks :: "bool \<Rightarrow> bool \<Rightarrow> bool heap" where
  "two_hooks s1 s2 =
     \<lparr>list_objs = (\<lambda>_. [])(0 := [1, 2]), hook_objs = (\<lambda>_. False)(1 := s1, 2 := s2),
      next_free = 3\<rparr>"

definition one_arg :: "int \<Rightarrow> call_args" where
  "one_arg x = \<lparr>pos_args = [IntV x], kw_args = []\<rparr>"

section \<open>What validation is to compute\<close>

text \<open>
  The value a declared field is checked on: the supplied one, otherwise the declared
  default; a required field that is not supplied has none.
\<close>

definition field_value :: "kwargs \<Rightarrow> field \<Rightarrow> val option" where
  "field_value data f =
     (case map_of data (field_name f) of Some x \<Rightarrow> Some x | None \<Rightarrow> field_default f)"

text \<open>
  The value after the check against the declared type; \<open>None\<close> when there is no value
  or the check fails.
\<close>

definition checked_value :: "kwargs \<Rightarrow> field \<Rightarrow> val option" where
  "checked_value data f =
     (case field_value data f of None \<Rightarrow> None | Some x \<Rightarrow> field_validate f x)"

definition field_ok :: "kwargs \<Rightarrow> field \<Rightarrow> bool" where
  "field_ok data f = (checked_value data f \<noteq> None)"

text \<open>
  The fields a record exposes after a successful construction, in declaration order.
\<close>

fun validated_values :: "kwargs \<Rightarrow> field list \<Rightarrow> (string \<times> val) list" where
  "validated_values data [] = []"
| "validated_values data (f # fs) =
     (case checked_value data f of
        None \<Rightarrow> validated_values data fs
      | Some v \<Rightarrow> (field_name f, v) # validated_values data fs)"

section \<open>What a deep copy is\<close>

text \<open>
  A copy \<open>c\<close> in \<open>h'\<close> of a value \<open>v\<close> in \<open>h\<close>: an atom is itself; a hook list is a list
  object allocated after \<open>h\<close> that holds hook objects allocated after \<open>h\<close>, with the
  states of the original hooks in the original order.
\<close>

definition is_deep_copy :: "'h heap \<Rightarrow> val \<Rightarrow> 'h heap \<Rightarrow> val \<Rightarrow> bool" where
  "is_deep_copy h v h' c =
     (case v of
        ListRef l \<Rightarrow>
          (case c of
             ListRef y \<Rightarrow>
               next_free h \<le> y \<and> y < next_free h'
               \<and> list_all (\<lambda>x. next_free h \<le> x \<and> x < next_free h') (list_objs h' y)
               \<and> map (hook_objs h') (list_objs h' y) = map (hook_objs h) (list_objs h l)
           | _ \<Rightarrow> False)
      | _ \<Rightarrow> c = v)"

text \<open>
  The list object of a node and the hook objects in it lie at addresses from \<open>n\<close> on.
\<close>

definition hooks_from :: "nat \<Rightarrow> 'h heap \<Rightarrow> val \<Rightarrow> bool" where
  "hooks_from n h c =
     (case c of ListRef y \<Rightarrow> n \<le> y \<and> list_all (\<lambda>x. n \<le> x) (list_objs h y) | _ \<Rightarrow> True)"

section \<open>Concrete nodes, stores and lookups\<close>

text \<open>
  A lookup in a table of known classes, for \<^verbatim>\<open>pydoc.locate\<close>.
\<close>

definition locate_in :: "(string \<times> 'c) list \<Rightarrow> string \<Rightarrow> error + 'c option" where
  "locate_in registry class_name = Inr (map_of registry class_name)"

text \<open>
  A lookup for which the module \<^verbatim>\<open>vbroken\<close> exists and raises while it is imported:
  \<^verbatim>\<open>pydoc.locate\<close> raises \<open>ErrorDuringImport\<close> for a name in it and finds nothing elsewhere.
\<close>

definition broken_locate :: "string \<Rightarrow> error + algorithm_class option" where
  "broken_locate class_name =
     (if class_name = ''vbroken.X''
      then Inl (ErrorDuringImport ''problem in vbroken - ZeroDivisionError: division by zero'')
      else Inr None)"

text \<open>A call with no arguments.\<close>

definition no_args :: call_args where
  "no_args = \<lparr>pos_args = [], kw_args = []\<rparr>"

definition adder_params :: "int \<Rightarrow> model_instance" where
  "adder_params i = \<lparr>inst_class = ''Parameters'', inst_dict = [(''increment'', IntV i)]\<rparr>"

text \<open>
  An \<^verbatim>\<open>Adder\<close> and a plain \<^verbatim>\<open>Algorithm\<close> whose hook list is the list object at 0.
\<close>

definition adder_node :: node where
  "adder_node =
     \<lparr>node_class = ''Adder'', callbacks = ListRef 0,
      params = \<lparr>inst_class = ''Parameters'', inst_dict = [(''increment'', IntV 1)]\<rparr>\<rparr>"

definition base_node :: node where
  "base_node =
     \<lparr>node_class = ''Algorithm'', callbacks = ListRef 0,
      params = \<lparr>inst_class = ''Parameters'', inst_dict = []\<rparr>\<rparr>"

text \<open>
  The keyword arguments of \<^verbatim>\<open>Adder(callbacks=hooks, increment=3)\<close>, where \<open>hooks\<close> is
  the list object at 0, and the node this builds in the store \<open>two_hooks\<close>: its hook list is
  the new list object at 4.
\<close>

definition init_kwargs :: kwargs where
  "init_kwargs = [(''callbacks'', ListRef 0), (''increment'', IntV 3)]"

definition copied_node :: node where
  "copied_node = \<lparr>node_class = ''Adder'', callbacks = ListRef 4, params = adder_params 3\<rparr>"

text \<open>
  The caller empties all but one entry of its own list and arms its own hooks.
\<close>

definition later_writes :: "bool mutation list" where
  "later_writes = [SetList 0 [2], SetHook 1 True, SetHook 2 True]"

section \<open>The two loops of \<^verbatim>\<open>execute\<close>\<close>

lemma start_loop_frame:
  "start_loop cb h a xs = (h', tr, r) \<Longrightarrow> list_objs h' = list_objs h \<and> next_free h' = next_free h"
  by (induction xs arbitrary: h h' tr r) (auto split: prod.splits option.splits)

lemma start_loop_trace:
  "start_loop cb h a xs = (h', tr, None) \<Longrightarrow> tr = map (\<lambda>x. OnExecuteStart x a) xs"
  by (induction xs arbitrary: h h' tr) (auto split: prod.splits option.splits)

lemma start_loop_events:
  "start_loop cb h a xs = (h', tr, r) \<Longrightarrow> ev \<in> set tr \<Longrightarrow> \<exists>x. ev = OnExecuteStart x a"
  by (induction xs arbitrary: h h' tr r) (fastforce split: prod.splits option.splits)+

lemma end_loop_frame:
  "end_loop cb h res xs = (h', tr, r) \<Longrightarrow> list_objs h' = list_objs h \<and> next_free h' = next_free h"
  by (induction xs arbitrary: h h' tr r) (auto split: prod.splits option.splits)

lemma end_loop_trace:
  "end_loop cb h res xs = (h', tr, None) \<Longrightarrow> tr = map (\<lambda>x. OnExecuteEnd x res) xs"
  by (induction xs arbitrary: h h' tr) (auto split: prod.splits option.splits)

lemma start_loop_agree:
  "start_loop cb h a xs = (g, tr, r) \<Longrightarrow> start_loop cb h' a xs = (g', tr', r') \<Longrightarrow>
   \<forall>x. n \<le> x \<longrightarrow> hook_objs h x = hook_objs h' x \<Longrightarrow> \<forall>x\<in>set xs. n \<le> x \<Longrightarrow>
     tr = tr' \<and> r = r' \<and> (\<forall>x. n \<le> x \<longrightarrow> hook_objs g x = hook_objs g' x)"
proof (induction xs arbitrary: h h' g g' tr tr' r r')
  case Nil
  then show ?case by simp
next
  case (Cons x xs)
  have eq: "hook_objs h x = hook_objs h' x" using Cons.prems(3,4) by simp
  obtain s e where oe: "on_execute_start cb (hook_objs h x) a = (s, e)"
    by (cases "on_execute_start cb (hook_objs h x) a")
  show ?case
  proof (cases e)
    case (Some err)
    with Cons.prems(1,2) oe eq Cons.prems(3) show ?thesis by auto
  next
    case None
    let ?h = "h\<lparr>hook_objs := (hook_objs h)(x := s)\<rparr>"
    let ?h' = "h'\<lparr>hook_objs := (hook_objs h')(x := s)\<rparr>"
    obtain g1 t1 r1 where a1: "start_loop cb ?h a xs = (g1, t1, r1)"
      by (cases "start_loop cb ?h a xs")
    obtain g2 t2 r2 where a2: "start_loop cb ?h' a xs = (g2, t2, r2)"
      by (cases "start_loop cb ?h' a xs")
    have ag: "\<forall>y. n \<le> y \<longrightarrow> hook_objs ?h y = hook_objs ?h' y" using Cons.prems(3) by simp
    have xs: "\<forall>x\<in>set xs. n \<le> x" using Cons.prems(4) by simp
    from Cons.IH[OF a1 a2 ag xs] Cons.prems(1,2) oe eq None a1 a2 show ?thesis by auto
  qed
qed

lemma end_loop_agree:
  "end_loop cb h res xs = (g, tr, r) \<Longrightarrow> end_loop cb h' res xs = (g', tr', r') \<Longrightarrow>
   \<forall>x. n \<le> x \<longrightarrow> hook_objs h x = hook_objs h' x \<Longrightarrow> \<forall>x\<in>set xs. n \<le> x \<Longrightarrow>
     tr = tr' \<and> r = r' \<and> (\<forall>x. n \<le> x \<longrightarrow> hook_objs g x = hook_objs g' x)"
proof (induction xs arbitrary: h h' g g' tr tr' r r')
  case Nil
  then show ?case by simp
next
  case (Cons x xs)
  have eq: "hook_objs h x = hook_objs h' x" using Cons.prems(3,4) by simp
  obtain s e where oe: "on_execute_end cb (hook_objs h x) res = (s, e)"
    by (cases "on_execute_end cb (hook_objs h x) res")
  show ?case
  proof (cases e)
    case (Some err)
    with Cons.prems(1,2) oe eq Cons.prems(3) show ?thesis by auto
  next
    case None
    let ?h = "h\<lparr>hook_objs := (hook_objs h)(x := s)\<rparr>"
    let ?h' = "h'\<lparr>hook_objs := (hook_objs h')(x := s)\<rparr>"
    obtain g1 t1 r1 where a1: "end_loop cb ?h res xs = (g1, t1, r1)"
      by (cases "end_loop cb ?h res xs")
    obtain g2 t2 r2 where a2: "end_loop cb ?h' res xs = (g2, t2, r2)"
      by (cases "end_loop cb ?h' res xs")
    have ag: "\<forall>y. n \<le> y \<longrightarrow> hook_objs ?h y = hook_objs ?h' y" using Cons.prems(3) by simp
    have xs: "\<forall>x\<in>set xs. n \<le> x" using Cons.prems(4) by simp
    from Cons.IH[OF a1 a2 ag xs] Cons.prems(1,2) oe eq None a1 a2 show ?thesis by auto
  qed
qed

lemma iter_callbacks_from:
  "iter_callbacks h c = Inr hs \<Longrightarrow> hooks_from n h c \<Longrightarrow> \<forall>x\<in>set hs. n \<le> x"
  by (cases c) (auto simp: hooks_from_def list_all_iff split: if_splits)

lemma iter_callbacks_agree:
  "hooks_from n h c \<Longrightarrow> \<forall>x. n \<le> x \<longrightarrow> list_objs h' x = list_objs h x \<Longrightarrow>
     iter_callbacks h' c = iter_callbacks h c"
  by (cases c) (auto simp: hooks_from_def)

lemma iter_callbacks_lists:
  "list_objs h' = list_objs h \<Longrightarrow> iter_callbacks h' c = iter_callbacks h c"
  by (cases c) auto

lemma hooks_from_lists:
  "list_objs h' = list_objs h \<Longrightarrow> hooks_from n h' c = hooks_from n h c"
  by (cases c) (simp_all add: hooks_from_def)

lemma execute_agree:
  assumes own: "hooks_from n h (callbacks self)"
    and ag: "\<forall>x. n \<le> x \<longrightarrow> list_objs h' x = list_objs h x \<and> hook_objs h' x = hook_objs h x"
  shows "trace_of (execute C cb h' self a) = trace_of (execute C cb h self a)
       \<and> result_of (execute C cb h' self a) = result_of (execute C cb h self a)"
proof -
  have it: "iter_callbacks h' (callbacks self) = iter_callbacks h (callbacks self)"
    using iter_callbacks_agree[OF own, of h'] ag by blast
  show ?thesis
  proof (cases "iter_callbacks h (callbacks self)")
    case (Inl e)
    with it show ?thesis by (simp add: execute_def trace_of_def result_of_def)
  next
    case (Inr hs)
    have ge: "\<forall>x\<in>set hs. n \<le> x" using iter_callbacks_from[OF Inr own] .
    obtain g tr r where s: "start_loop cb h a hs = (g, tr, r)"
      by (cases "start_loop cb h a hs")
    obtain g' tr' r' where s': "start_loop cb h' a hs = (g', tr', r')"
      by (cases "start_loop cb h' a hs")
    have ag0: "\<forall>x. n \<le> x \<longrightarrow> hook_objs h' x = hook_objs h x" using ag by simp
    from start_loop_agree[OF s' s ag0 ge]
    have t: "tr' = tr" and rr: "r' = r"
      and ag1: "\<forall>x. n \<le> x \<longrightarrow> hook_objs g' x = hook_objs g x" by auto
    have lg: "list_objs g = list_objs h" using start_loop_frame[OF s] by simp
    have lg': "list_objs g' = list_objs h'" using start_loop_frame[OF s'] by simp
    have i1: "iter_callbacks g (callbacks self) = Inr hs"
      using iter_callbacks_lists[OF lg] Inr by simp
    have i2: "iter_callbacks g' (callbacks self) = Inr hs"
      using iter_callbacks_lists[OF lg'] it Inr by simp
    show ?thesis
    proof (cases r)
      case (Some e)
      with Inr it s s' t rr show ?thesis by (simp add: execute_def trace_of_def result_of_def)
    next
      case None
      show ?thesis
      proof (cases "run C self a")
        case (Inl e)
        with None Inr it s s' t rr show ?thesis
          by (simp add: execute_def trace_of_def result_of_def)
      next
        case (Inr res)
        obtain k tk rk where e: "end_loop cb g res hs = (k, tk, rk)"
          by (cases "end_loop cb g res hs")
        obtain k' tk' rk' where e': "end_loop cb g' res hs = (k', tk', rk')"
          by (cases "end_loop cb g' res hs")
        from end_loop_agree[OF e' e ag1 ge] have "tk' = tk" "rk' = rk" by auto
        with None Inr \<open>iter_callbacks h (callbacks self) = Inr hs\<close> it s s' t rr i1 i2 e e'
        show ?thesis
          by (cases rk) (simp_all add: execute_def trace_of_def result_of_def)
      qed
    qed
  qed
qed

lemma execute_lists:
  "list_objs (heap_of (execute C cb h self a)) = list_objs h"
proof (cases "iter_callbacks h (callbacks self)")
  case (Inl e)
  then show ?thesis by (simp add: execute_def heap_of_def)
next
  case (Inr hs)
  obtain g tr r where s: "start_loop cb h a hs = (g, tr, r)" by (cases "start_loop cb h a hs")
  have lg: "list_objs g = list_objs h" using start_loop_frame[OF s] by simp
  have i1: "iter_callbacks g (callbacks self) = Inr hs"
    using iter_callbacks_lists[OF lg] Inr by simp
  show ?thesis
  proof (cases r)
    case (Some e)
    with Inr s lg show ?thesis by (simp add: execute_def heap_of_def)
  next
    case None
    show ?thesis
    proof (cases "run C self a")
      case (Inl e)
      with None Inr s lg show ?thesis by (simp add: execute_def heap_of_def)
    next
      case (Inr res)
      obtain k tk rk where e: "end_loop cb g res hs = (k, tk, rk)"
        by (cases "end_loop cb g res hs")
      have "list_objs k = list_objs g" using end_loop_frame[OF e] by simp
      with None Inr \<open>iter_callbacks h (callbacks self) = Inr hs\<close> s lg i1 e show ?thesis
        by (cases rk) (simp_all add: execute_def heap_of_def)
    qed
  qed
qed

section \<open>The execution protocol\<close>

lemmas ex_defs = adder_node_def base_node_def Adder_class_def Adder_run_def armed_Callback_def
  two_hooks_def one_arg_def getattr_def run_def Algorithm_class_def Algorithm_run_def
  Parameters_class_def Adder_Parameters_def int_field_def

text \<open>
  Claim C1, amended. For a node whose hook list is a list object of N hooks: when no
  \<^verbatim>\<open>on_execute_start\<close> raises, \<^verbatim>\<open>run\<close> returns \<open>r\<close> and no \<^verbatim>\<open>on_execute_end\<close> raises, one
  call of \<^verbatim>\<open>execute\<close> calls \<^verbatim>\<open>on_execute_start\<close> of each hook once, in list order, with the
  arguments of the call, then \<^verbatim>\<open>run\<close> with the same arguments, then \<^verbatim>\<open>on_execute_end\<close> of
  each hook once, in list order, with \<open>r\<close>, and returns \<open>r\<close>.
\<close>

theorem execute_hooks_in_order:
  assumes "callbacks self = ListRef l"
    and "snd (snd (start_loop cb h a (list_objs h l))) = None"
    and "run C self a = Inr r"
    and "snd (snd (end_loop cb (fst (start_loop cb h a (list_objs h l))) r (list_objs h l))) = None"
  shows "trace_of (execute C cb h self a) =
           map (\<lambda>x. OnExecuteStart x a) (list_objs h l) @ [Run a]
             @ map (\<lambda>x. OnExecuteEnd x r) (list_objs h l)
         \<and> result_of (execute C cb h self a) = Inr r"
proof -
  obtain h1 tr1 where s: "start_loop cb h a (list_objs h l) = (h1, tr1, None)"
    using assms(2) by (cases "start_loop cb h a (list_objs h l)") auto
  have l1: "list_objs h1 = list_objs h" using start_loop_frame[OF s] by simp
  obtain h2 tr2 where e: "end_loop cb h1 r (list_objs h l) = (h2, tr2, None)"
    using assms(4) s by (cases "end_loop cb h1 r (list_objs h l)") auto
  have t1: "tr1 = map (\<lambda>x. OnExecuteStart x a) (list_objs h l)" using start_loop_trace[OF s] .
  have t2: "tr2 = map (\<lambda>x. OnExecuteEnd x r) (list_objs h l)" using end_loop_trace[OF e] .
  show ?thesis
    using assms(1,3) s e l1 t1 t2 by (simp add: execute_def trace_of_def result_of_def)
qed

text \<open>
  An \<^verbatim>\<open>Adder\<close> with two quiet hooks, called on 5.
\<close>

theorem execute_hooks_in_order_witness:
  "callbacks adder_node = ListRef 0
   \<and> snd (snd (start_loop armed_Callback (two_hooks False False) (one_arg 5)
                  (list_objs (two_hooks False False) 0))) = None
   \<and> run Adder_class adder_node (one_arg 5) = Inr (IntV 6)
   \<and> trace_of (execute Adder_class armed_Callback (two_hooks False False) adder_node (one_arg 5))
       = [OnExecuteStart 1 (one_arg 5), OnExecuteStart 2 (one_arg 5), Run (one_arg 5),
          OnExecuteEnd 1 (IntV 6), OnExecuteEnd 2 (IntV 6)]
   \<and> result_of (execute Adder_class armed_Callback (two_hooks False False) adder_node (one_arg 5))
       = Inr (IntV 6)"
proof -
  have 1: "callbacks adder_node = ListRef 0" by (simp add: adder_node_def)
  have 2: "snd (snd (start_loop armed_Callback (two_hooks False False) (one_arg 5)
                  (list_objs (two_hooks False False) 0))) = None"
    by (simp add: ex_defs)
  have 3: "run Adder_class adder_node (one_arg 5) = Inr (IntV 6)" by (simp add: ex_defs)
  have 4: "snd (snd (end_loop armed_Callback
             (fst (start_loop armed_Callback (two_hooks False False) (one_arg 5)
                  (list_objs (two_hooks False False) 0))) (IntV 6)
             (list_objs (two_hooks False False) 0))) = None"
    by (simp add: ex_defs)
  have 5: "list_objs (two_hooks False False) 0 = [1, 2]" by (simp add: two_hooks_def)
  show ?thesis using execute_hooks_in_order[OF 1 2 3 4] 1 2 3 5 by simp
qed

text \<open>
  Claim C1 as stated fails. A plain \<^verbatim>\<open>Algorithm\<close> with two quiet hooks: \<^verbatim>\<open>run\<close> raises,
  no \<^verbatim>\<open>on_execute_end\<close> is called and nothing is returned. An \<^verbatim>\<open>Adder\<close> whose first hook
  raises in \<^verbatim>\<open>on_execute_start\<close>: the second hook and \<^verbatim>\<open>run\<close> are never called.
\<close>

theorem execute_all_hooks_counterexample:
  "trace_of (execute Algorithm_class armed_Callback (two_hooks False False) base_node (one_arg 5))
     = [OnExecuteStart 1 (one_arg 5), OnExecuteStart 2 (one_arg 5), Run (one_arg 5)]
   \<and> result_of (execute Algorithm_class armed_Callback (two_hooks False False) base_node (one_arg 5))
     = Inl (NotImplementedError ''Algorithm.run method not implemented!'')
   \<and> trace_of (execute Adder_class armed_Callback (two_hooks True False) adder_node (one_arg 5))
     = [OnExecuteStart 1 (one_arg 5)]
   \<and> result_of (execute Adder_class armed_Callback (two_hooks True False) adder_node (one_arg 5))
     = Inl (Exception ''hook failed'')"
  by (simp add: execute_def trace_of_def result_of_def ex_defs)

text \<open>
  Claim C7. Calling a node returns exactly what \<^verbatim>\<open>execute\<close> returns on the same
  arguments: the same value or the same exception, with the same calls made and the same
  store.
\<close>

theorem call_is_execute: "call C cb h self a = execute C cb h self a"
  by (simp add: call_def)

text \<open>
  Claim C10. When \<^verbatim>\<open>run\<close> raises on the arguments of the call, \<^verbatim>\<open>execute\<close> calls no
  \<^verbatim>\<open>on_execute_end\<close> and leaves the node (its hook list reference and its configuration
  record) and every list object as they were; and when the first loop has gone through
  the hook list without an exception, so that \<^verbatim>\<open>run\<close> is called, \<^verbatim>\<open>execute\<close> raises the
  exception of \<^verbatim>\<open>run\<close>, having called \<^verbatim>\<open>on_execute_start\<close> of every hook and then \<^verbatim>\<open>run\<close>,
  and nothing else.
\<close>

theorem run_raises_no_end:
  assumes "run C self a = Inl e"
  shows "(\<forall>x r. OnExecuteEnd x r \<notin> set (trace_of (execute C cb h self a)))
       \<and> node_of (execute C cb h self a) = self
       \<and> list_objs (heap_of (execute C cb h self a)) = list_objs h
       \<and> (Run a \<in> set (trace_of (execute C cb h self a))
            \<longrightarrow> result_of (execute C cb h self a) = Inl e)
       \<and> (\<forall>hs. iter_callbacks h (callbacks self) = Inr hs
              \<longrightarrow> snd (snd (start_loop cb h a hs)) = None
              \<longrightarrow> result_of (execute C cb h self a) = Inl e
                  \<and> trace_of (execute C cb h self a)
                      = map (\<lambda>x. OnExecuteStart x a) hs @ [Run a])"
proof (cases "iter_callbacks h (callbacks self)")
  case (Inl err)
  then show ?thesis by (simp add: execute_def trace_of_def node_of_def heap_of_def result_of_def)
next
  case (Inr hs)
  obtain h1 tr1 r1 where s: "start_loop cb h a hs = (h1, tr1, r1)"
    by (cases "start_loop cb h a hs") auto
  have ev: "\<And>ev. ev \<in> set tr1 \<Longrightarrow> \<exists>x. ev = OnExecuteStart x a" using start_loop_events[OF s] .
  have fr: "list_objs h1 = list_objs h" using start_loop_frame[OF s] by simp
  have ne: "\<And>x r. OnExecuteEnd x r \<notin> set tr1" using ev by blast
  have nr: "Run a \<notin> set tr1" using ev by blast
  show ?thesis
  proof (cases r1)
    case None
    have tr: "tr1 = map (\<lambda>x. OnExecuteStart x a) hs"
      using start_loop_trace s None by blast
    show ?thesis
      using assms Inr s fr ne None tr
      by (simp add: execute_def trace_of_def node_of_def heap_of_def result_of_def)
  next
    case (Some err)
    then show ?thesis
      using assms Inr s fr ne nr
      by (simp add: execute_def trace_of_def node_of_def heap_of_def result_of_def)
  qed
qed

text \<open>
  A plain \<^verbatim>\<open>Algorithm\<close>, whose \<^verbatim>\<open>run\<close> is the base method, and an \<^verbatim>\<open>Adder\<close> called with no
  argument, whose own \<^verbatim>\<open>run\<close> raises; each with two quiet hooks.
\<close>

theorem run_raises_no_end_witness:
  "run Algorithm_class base_node (one_arg 5)
     = Inl (NotImplementedError ''Algorithm.run method not implemented!'')
   \<and> iter_callbacks (two_hooks False False) (callbacks base_node) = Inr [1, 2]
   \<and> snd (snd (start_loop armed_Callback (two_hooks False False) (one_arg 5) [1, 2])) = None
   \<and> trace_of (execute Algorithm_class armed_Callback (two_hooks False False) base_node (one_arg 5))
       = [OnExecuteStart 1 (one_arg 5), OnExecuteStart 2 (one_arg 5), Run (one_arg 5)]
   \<and> result_of (execute Algorithm_class armed_Callback (two_hooks False False) base_node (one_arg 5))
       = Inl (NotImplementedError ''Algorithm.run method not implemented!'')
   \<and> run Adder_class adder_node no_args = Inl (TypeError ''unsupported operand'')
   \<and> iter_callbacks (two_hooks False False) (callbacks adder_node) = Inr [1, 2]
   \<and> snd (snd (start_loop armed_Callback (two_hooks False False) no_args [1, 2])) = None
   \<and> trace_of (execute Adder_class armed_Callback (two_hooks False False) adder_node no_args)
       = [OnExecuteStart 1 no_args, OnExecuteStart 2 no_args, Run no_args]
   \<and> result_of (execute Adder_class armed_Callback (two_hooks False False) adder_node no_args)
       = Inl (TypeError ''unsupported operand'')"
proof -
  have 1: "run Algorithm_class base_node (one_arg 5)
     = Inl (NotImplementedError ''Algorithm.run method not implemented!'')"
    by (simp add: ex_defs)
  have 2: "iter_callbacks (two_hooks False False) (callbacks base_node) = Inr [1, 2]"
    by (simp add: ex_defs)
  have 3: "snd (snd (start_loop armed_Callback (two_hooks False False) (one_arg 5) [1, 2])) = None"
    by (simp add: ex_defs)
  have 4: "run Adder_class adder_node no_args = Inl (TypeError ''unsupported operand'')"
    by (simp add: ex_defs no_args_def)
  have 5: "iter_callbacks (two_hooks False False) (callbacks adder_node) = Inr [1, 2]"
    by (simp add: ex_defs)
  have 6: "snd (snd (start_loop armed_Callback (two_hooks False False) no_args [1, 2])) = None"
    by (simp add: ex_defs)
  note base = run_raises_no_end[OF 1, of armed_Callback "two_hooks False False",
      THEN conjunct2, THEN conjunct2, THEN conjunct2, THEN conjunct2, rule_format, OF 2 3]
  note adder = run_raises_no_end[OF 4, of armed_Callback "two_hooks False False",
      THEN conjunct2, THEN conjunct2, THEN conjunct2, THEN conjunct2, rule_format, OF 5 6]
  show ?thesis using base adder 1 2 3 4 5 6 by simp
qed

section \<open>Methods that are not implemented\<close>

lemma names_type_prefix: "error_message e = n @ rest \<Longrightarrow> names_type e n"
  by (simp add: names_type_def sublist_def) (metis append_Nil)

text \<open>
  Claim C5, amended. On a type that does not override them, \<^verbatim>\<open>run\<close> raises
  \<open>NotImplementedError\<close> and \<^verbatim>\<open>serialize\<close> raises \<open>RuntimeError\<close>, each with a message that
  names the class of the object; \<^verbatim>\<open>deserialize\<close> raises \<open>RuntimeError\<close> with a message that
  names \<^verbatim>\<open>ImmutableModel\<close>, whatever the type it is called on.
\<close>

theorem default_methods_raise:
  "(alg_run C = None \<longrightarrow>
      run C self a = Inl (NotImplementedError (node_class self @ ''.run method not implemented!''))
      \<and> names_type (NotImplementedError (node_class self @ ''.run method not implemented!''))
            (node_class self))
   \<and> (model_serialize cls = None \<longrightarrow>
      serialize cls inst = Inl (RuntimeError (inst_class inst @ ''.serialize not implemented!''))
      \<and> names_type (RuntimeError (inst_class inst @ ''.serialize not implemented!''))
            (inst_class inst))
   \<and> (model_deserialize cls = None \<longrightarrow>
      deserialize cls data = Inl (RuntimeError ''ImmutableModel.deserialize not implemented!'')
      \<and> names_type (RuntimeError ''ImmutableModel.deserialize not implemented!'')
            ''ImmutableModel'')"
  by (auto simp: run_def Algorithm_run_def serialize_def ImmutableModel_serialize_def
      deserialize_def ImmutableModel_deserialize_def intro!: names_type_prefix)

text \<open>
  \<^verbatim>\<open>Algorithm\<close> and \<^verbatim>\<open>Algorithm.Parameters\<close> override none of the three.
\<close>

theorem default_methods_raise_witness:
  "alg_run Algorithm_class = None \<and> model_serialize Parameters_class = None
   \<and> model_deserialize Parameters_class = None
   \<and> run Algorithm_class base_node (one_arg 5)
       = Inl (NotImplementedError ''Algorithm.run method not implemented!'')
   \<and> serialize Parameters_class (params base_node)
       = Inl (RuntimeError ''Parameters.serialize not implemented!'')
   \<and> deserialize Parameters_class NoneV
       = Inl (RuntimeError ''ImmutableModel.deserialize not implemented!'')"
  using default_methods_raise[of Algorithm_class base_node "one_arg 5" Parameters_class
      "params base_node" NoneV]
  by (simp add: Algorithm_class_def Parameters_class_def base_node_def)

text \<open>
  Claim C5 as stated fails: \<^verbatim>\<open>Algorithm.Parameters.deserialize\<close> raises a message that
  does not name \<^verbatim>\<open>Parameters\<close>.
\<close>

theorem deserialize_names_concrete_type_counterexample:
  "model_deserialize Parameters_class = None
   \<and> deserialize Parameters_class NoneV
       = Inl (RuntimeError ''ImmutableModel.deserialize not implemented!'')
   \<and> \<not> names_type (RuntimeError ''ImmutableModel.deserialize not implemented!'')
         (model_name Parameters_class)"
proof -
  have "\<not> sublist ''Parameters'' ''ImmutableModel.deserialize not implemented!''"
    by code_simp
  then show ?thesis
    by (simp add: Parameters_class_def deserialize_def ImmutableModel_deserialize_def
        names_type_def)
qed

section \<open>Configuration records\<close>

lemma validate_fields_all:
  "validate_all cfg \<Longrightarrow>
   validate_fields cfg data fs =
     (validated_values data fs, map field_name (filter (\<lambda>f. \<not> field_ok data f) fs))"
  by (induction fs)
     (auto simp: field_ok_def checked_value_def field_value_def split: option.splits)

lemma validate_model_ImmutableModel:
  "validate_model ImmutableModel_Config fs data =
     (validated_values data fs, map field_name (filter (\<lambda>f. \<not> field_ok data f) fs))"
  by (simp add: validate_model_def validate_fields_all ImmutableModel_Config_def)

lemma no_failing_iff:
  "(map field_name (filter (\<lambda>f. \<not> field_ok data f) fs) = []) = (\<forall>f\<in>set fs. field_ok data f)"
  by (simp add: filter_empty_conv)

lemma validated_values_keys_all:
  "\<forall>f\<in>set fs. field_ok data f \<Longrightarrow> map fst (validated_values data fs) = map field_name fs"
  by (induction fs) (auto simp: field_ok_def)

lemma validated_values_keys:
  "k \<in> set (map fst (validated_values data fs)) \<Longrightarrow> is_declared fs k"
  by (induction fs)
     (auto simp: is_declared_def split: option.splits)

lemma map_of_filter_key:
  "map_of (filter (\<lambda>(k, v). P k) xs) k = (if P k then map_of xs k else None)"
  by (induction xs) auto

lemma checked_value_filter:
  "f \<in> set fs \<Longrightarrow>
   checked_value (filter (\<lambda>(k, v). is_declared fs k) data) f = checked_value data f"
  by (simp add: checked_value_def field_value_def map_of_filter_key is_declared_def)

lemma validated_values_cong:
  "\<forall>f\<in>set gs. checked_value d1 f = checked_value d2 f \<Longrightarrow>
   validated_values d1 gs = validated_values d2 gs"
  by (induction gs) (auto split: option.splits)

lemma failing_cong:
  "\<forall>f\<in>set gs. checked_value d1 f = checked_value d2 f \<Longrightarrow>
   filter (\<lambda>f. \<not> field_ok d1 f) gs = filter (\<lambda>f. \<not> field_ok d2 f) gs"
  by (induction gs) (simp_all add: field_ok_def)

lemma validated_values_filter:
  "validated_values (filter (\<lambda>(k, v). is_declared fs k) data) fs = validated_values data fs"
  by (rule validated_values_cong) (simp add: checked_value_filter)

lemma failing_filter:
  "filter (\<lambda>f. \<not> field_ok (filter (\<lambda>(k, v). is_declared fs k) data) f) fs
     = filter (\<lambda>f. \<not> field_ok data f) fs"
  by (rule failing_cong) (simp add: checked_value_filter)

lemma init_keys_declared:
  assumes "ImmutableModel_init cls data = Inr self" and "name \<in> set (map fst (inst_dict self))"
  shows "is_declared (model_fields cls) name"
proof (cases "map field_name (filter (\<lambda>f. \<not> field_ok data f) (model_fields cls))")
  case Nil
  with assms(1) have "inst_dict self = validated_values data (model_fields cls)"
    by (auto simp: ImmutableModel_init_def BaseModel_init_def validate_model_ImmutableModel)
  then show ?thesis using assms(2) validated_values_keys by metis
next
  case (Cons e es)
  with assms(1) show ?thesis
    by (simp add: ImmutableModel_init_def BaseModel_init_def validate_model_ImmutableModel)
qed

lemmas cfg_defs = ImmutableModel_init_def BaseModel_init_def validate_model_def
  ImmutableModel_Config_def Adder_Parameters_def int_field_def field_ok_def checked_value_def
  field_value_def is_declared_def adder_params_def

text \<open>
  Claim C3. Construction of a configuration record takes, for each declared field, the
  supplied value or else the declared default, checks every one of these values, and
  raises \<open>ValidationError\<close> exactly when some declared field has no value or fails its
  check; otherwise the record holds the checked values.
\<close>

theorem ImmutableModel_init_validates:
  "ImmutableModel_init cls data =
     (if \<forall>f\<in>set (model_fields cls). field_ok data f
      then Inr \<lparr>inst_class = model_name cls,
                inst_dict = validated_values data (model_fields cls)\<rparr>
      else Inl (ValidationError (model_name cls)
             (map field_name (filter (\<lambda>f. \<not> field_ok data f) (model_fields cls)))))"
proof (cases "map field_name (filter (\<lambda>f. \<not> field_ok data f) (model_fields cls))")
  case Nil
  then show ?thesis
    using no_failing_iff[of data "model_fields cls"]
    by (simp add: ImmutableModel_init_def BaseModel_init_def validate_model_ImmutableModel)
next
  case (Cons e es)
  then show ?thesis
    using no_failing_iff[of data "model_fields cls"]
    by (simp add: ImmutableModel_init_def BaseModel_init_def validate_model_ImmutableModel)
qed

text \<open>
  A supplied value of the wrong type, a default that is taken, and a default of the
  wrong type.
\<close>

theorem ImmutableModel_init_validates_witness:
  "ImmutableModel_init Adder_Parameters [(''increment'', StrV ''x'')]
      = Inl (ValidationError ''Parameters'' [''increment''])
   \<and> ImmutableModel_init Adder_Parameters [] = Inr (adder_params 1)
   \<and> ImmutableModel_init
        \<lparr>model_name = ''Bad'', model_fields = [int_field ''n'' (Some (StrV ''x''))],
         model_serialize = None, model_deserialize = None\<rparr> []
      = Inl (ValidationError ''Bad'' [''n''])"
  using ImmutableModel_init_validates[of Adder_Parameters "[(''increment'', StrV ''x'')]"]
    ImmutableModel_init_validates[of Adder_Parameters "[]"]
    ImmutableModel_init_validates[of "\<lparr>model_name = ''Bad'',
         model_fields = [int_field ''n'' (Some (StrV ''x''))],
         model_serialize = None, model_deserialize = None\<rparr>" "[]"]
  by (simp add: Adder_Parameters_def int_field_def field_ok_def checked_value_def
      field_value_def adder_params_def)

text \<open>
  Claim C9. Construction gives the same outcome with and without the supplied names that
  are no declared field, and a constructed record exposes the declared fields and no
  other.
\<close>

theorem undeclared_names_ignored:
  "ImmutableModel_init cls data
     = ImmutableModel_init cls (filter (\<lambda>(k, v). is_declared (model_fields cls) k) data)
   \<and> (\<forall>self. ImmutableModel_init cls data = Inr self
         \<longrightarrow> map fst (inst_dict self) = map field_name (model_fields cls))"
proof
  show "ImmutableModel_init cls data
     = ImmutableModel_init cls (filter (\<lambda>(k, v). is_declared (model_fields cls) k) data)"
    by (simp add: ImmutableModel_init_def BaseModel_init_def validate_model_ImmutableModel
        validated_values_filter failing_filter)
next
  show "\<forall>self. ImmutableModel_init cls data = Inr self
         \<longrightarrow> map fst (inst_dict self) = map field_name (model_fields cls)"
  proof (intro allI impI)
    fix self assume a: "ImmutableModel_init cls data = Inr self"
    show "map fst (inst_dict self) = map field_name (model_fields cls)"
    proof (cases "map field_name (filter (\<lambda>f. \<not> field_ok data f) (model_fields cls))")
      case Nil
      then have ok: "\<forall>f\<in>set (model_fields cls). field_ok data f"
        using no_failing_iff[of data "model_fields cls"] by simp
      from a Nil have "inst_dict self = validated_values data (model_fields cls)"
        by (auto simp: ImmutableModel_init_def BaseModel_init_def validate_model_ImmutableModel)
      then show ?thesis using validated_values_keys_all[OF ok] by simp
    next
      case (Cons e es)
      with a show ?thesis
        by (simp add: ImmutableModel_init_def BaseModel_init_def validate_model_ImmutableModel)
    qed
  qed
qed

text \<open>
  \<^verbatim>\<open>Parameters(increment=3, unknown=7)\<close>.
\<close>

theorem undeclared_names_ignored_witness:
  "ImmutableModel_init Adder_Parameters [(''increment'', IntV 3), (''unknown'', IntV 7)]
     = ImmutableModel_init Adder_Parameters [(''increment'', IntV 3)]
   \<and> ImmutableModel_init Adder_Parameters [(''increment'', IntV 3), (''unknown'', IntV 7)]
     = Inr (adder_params 3)
   \<and> map fst (inst_dict (adder_params 3)) = map field_name (model_fields Adder_Parameters)"
proof -
  have 1: "ImmutableModel_init Adder_Parameters [(''increment'', IntV 3), (''unknown'', IntV 7)]
     = Inr (adder_params 3)"
    by (simp add: cfg_defs)
  show ?thesis
    using undeclared_names_ignored[of Adder_Parameters
        "[(''increment'', IntV 3), (''unknown'', IntV 7)]"] 1
    by (simp add: Adder_Parameters_def int_field_def is_declared_def)
qed

text \<open>
  Claim C2. On a constructed configuration record, an assignment to any of its fields
  raises the \<open>TypeError\<close> of an immutable record, and the record, so the field, is as
  before.
\<close>

theorem assignment_refused:
  assumes "ImmutableModel_init cls data = Inr self"
    and "name \<in> set (map fst (inst_dict self))"
  shows "ImmutableModel_setattr cls self name v =
           (self, Some (TypeError (dquoted (inst_class self)
                                     @ '' is immutable and does not support item assignment'')))
         \<and> getattr (fst (ImmutableModel_setattr cls self name v)) name = getattr self name"
  using init_keys_declared[OF assms]
  by (simp add: ImmutableModel_setattr_def BaseModel_setattr_def ImmutableModel_Config_def)

text \<open>
  \<^verbatim>\<open>params.increment = 9\<close> on \<^verbatim>\<open>Parameters(increment=3)\<close>.
\<close>

theorem assignment_refused_witness:
  "ImmutableModel_init Adder_Parameters [(''increment'', IntV 3)] = Inr (adder_params 3)
   \<and> ''increment'' \<in> set (map fst (inst_dict (adder_params 3)))
   \<and> ImmutableModel_setattr Adder_Parameters (adder_params 3) ''increment'' (IntV 9)
       = (adder_params 3,
          Some (TypeError (dquoted ''Parameters''
                             @ '' is immutable and does not support item assignment'')))
   \<and> getattr (fst (ImmutableModel_setattr Adder_Parameters (adder_params 3) ''increment''
         (IntV 9))) ''increment'' = Some (IntV 3)"
proof -
  have 1: "ImmutableModel_init Adder_Parameters [(''increment'', IntV 3)] = Inr (adder_params 3)"
    by (simp add: cfg_defs)
  have 2: "''increment'' \<in> set (map fst (inst_dict (adder_params 3)))"
    by (simp add: adder_params_def)
  show ?thesis
    using assignment_refused[OF 1 2, of "IntV 9"] 1 2
    by (simp add: adder_params_def getattr_def)
qed

section \<open>Deep copies\<close>

lemma deepcopy_hooks_frame:
  "deepcopy_hooks h memo xs = (h', memo', ys) \<Longrightarrow>
     next_free h \<le> next_free h' \<and> list_objs h' = list_objs h
     \<and> (\<forall>a < next_free h. hook_objs h' a = hook_objs h a)"
proof (induction xs arbitrary: h memo h' memo' ys)
  case Nil
  then show ?case by simp
next
  case (Cons x xs)
  show ?case
  proof (cases "map_of memo x")
    case (Some y)
    with Cons.prems obtain ys' where "deepcopy_hooks h memo xs = (h', memo', ys')"
      by (auto split: prod.splits)
    from Cons.IH[OF this] show ?thesis .
  next
    case None
    let ?h1 = "h\<lparr>hook_objs := (hook_objs h)(next_free h := hook_objs h x),
                 next_free := Suc (next_free h)\<rparr>"
    from Cons.prems None obtain ys' where
      "deepcopy_hooks ?h1 ((x, next_free h) # memo) xs = (h', memo', ys')"
      by (auto simp: new_hook_def split: prod.splits)
    from Cons.IH[OF this] show ?thesis by auto
  qed
qed

lemma deepcopy_hooks_fresh:
  "deepcopy_hooks h memo xs = (h', memo', ys) \<Longrightarrow>
   \<forall>p\<in>set memo. n \<le> snd p \<and> snd p < next_free h \<Longrightarrow>
   n \<le> next_free h \<Longrightarrow>
     (\<forall>y\<in>set ys. n \<le> y \<and> y < next_free h')"
proof (induction xs arbitrary: h memo h' memo' ys)
  case Nil
  then show ?case by simp
next
  case (Cons x xs)
  show ?case
  proof (cases "map_of memo x")
    case (Some y)
    with Cons.prems(1) obtain ys' where
      rec: "deepcopy_hooks h memo xs = (h', memo', ys')" and ys: "ys = y # ys'"
      by (auto split: prod.splits)
    have "(x, y) \<in> set memo" using Some by (rule map_of_SomeD)
    then have y: "n \<le> y \<and> y < next_free h" using Cons.prems(2) by fastforce
    have "next_free h \<le> next_free h'" using deepcopy_hooks_frame[OF rec] by simp
    then show ?thesis using Cons.IH[OF rec Cons.prems(2) Cons.prems(3)] y ys by auto
  next
    case None
    let ?h1 = "h\<lparr>hook_objs := (hook_objs h)(next_free h := hook_objs h x),
                 next_free := Suc (next_free h)\<rparr>"
    from Cons.prems(1) None obtain ys' where
      rec: "deepcopy_hooks ?h1 ((x, next_free h) # memo) xs = (h', memo', ys')"
      and ys: "ys = next_free h # ys'"
      by (auto simp: new_hook_def split: prod.splits)
    have m: "\<forall>p\<in>set ((x, next_free h) # memo). n \<le> snd p \<and> snd p < next_free ?h1"
      using Cons.prems(2,3) by auto
    have n: "n \<le> next_free ?h1" using Cons.prems(3) by simp
    have "next_free ?h1 \<le> next_free h'" using deepcopy_hooks_frame[OF rec] by simp
    then show ?thesis using Cons.IH[OF rec m n] ys Cons.prems(3) by auto
  qed
qed

lemma deepcopy_hooks_content:
  "deepcopy_hooks h memo xs = (h', memo', ys) \<Longrightarrow>
   \<forall>x\<in>set xs. x < next_free h \<Longrightarrow>
   \<forall>p\<in>set memo. fst p < next_free h \<and> snd p < next_free h
        \<and> hook_objs h (snd p) = hook_objs h (fst p) \<Longrightarrow>
     map (hook_objs h') ys = map (hook_objs h) xs"
proof (induction xs arbitrary: h memo h' memo' ys)
  case Nil
  then show ?case by simp
next
  case (Cons x xs)
  show ?case
  proof (cases "map_of memo x")
    case (Some y)
    with Cons.prems(1) obtain ys' where
      rec: "deepcopy_hooks h memo xs = (h', memo', ys')" and ys: "ys = y # ys'"
      by (auto split: prod.splits)
    have "(x, y) \<in> set memo" using Some by (rule map_of_SomeD)
    then have y: "y < next_free h \<and> hook_objs h y = hook_objs h x"
      using Cons.prems(3) by fastforce
    have fr: "\<forall>a < next_free h. hook_objs h' a = hook_objs h a"
      using deepcopy_hooks_frame[OF rec] by simp
    have "map (hook_objs h') ys' = map (hook_objs h) xs"
      using Cons.IH[OF rec _ Cons.prems(3)] Cons.prems(2) by simp
    then show ?thesis using ys y fr by simp
  next
    case None
    let ?h1 = "h\<lparr>hook_objs := (hook_objs h)(next_free h := hook_objs h x),
                 next_free := Suc (next_free h)\<rparr>"
    from Cons.prems(1) None obtain ys' where
      rec: "deepcopy_hooks ?h1 ((x, next_free h) # memo) xs = (h', memo', ys')"
      and ys: "ys = next_free h # ys'"
      by (auto simp: new_hook_def split: prod.splits)
    have x: "x < next_free h" using Cons.prems(2) by simp
    have w: "\<forall>x\<in>set xs. x < next_free ?h1" using Cons.prems(2) by auto
    have m: "\<forall>p\<in>set ((x, next_free h) # memo). fst p < next_free ?h1 \<and> snd p < next_free ?h1
        \<and> hook_objs ?h1 (snd p) = hook_objs ?h1 (fst p)"
      using Cons.prems(3) x by auto
    have fr: "\<forall>a < next_free ?h1. hook_objs h' a = hook_objs ?h1 a"
      using deepcopy_hooks_frame[OF rec] by simp
    have ih: "map (hook_objs h') ys' = map (hook_objs ?h1) xs"
      using Cons.IH[OF rec w m] .
    have "map (hook_objs ?h1) xs = map (hook_objs h) xs"
      using Cons.prems(2) by auto
    moreover have "hook_objs h' (next_free h) = hook_objs h x" using fr by simp
    ultimately show ?thesis using ys ih by simp
  qed
qed

lemma deepcopy_atom: "\<forall>l. v \<noteq> ListRef l \<Longrightarrow> deepcopy h v = (h, v)"
  by (cases v) (simp_all add: deepcopy_def)

lemma deepcopy_list:
  assumes "deepcopy h (ListRef l) = (h', c)"
  shows "c = ListRef (next_free h) \<and> next_free h < next_free h'
       \<and> (\<forall>x\<in>set (list_objs h' (next_free h)). next_free h \<le> x \<and> x < next_free h')
       \<and> (\<forall>a < next_free h. list_objs h' a = list_objs h a \<and> hook_objs h' a = hook_objs h a)"
proof -
  let ?h1 = "h\<lparr>list_objs := (list_objs h)(next_free h := []), next_free := Suc (next_free h)\<rparr>"
  obtain h2 memo ys where d: "deepcopy_hooks ?h1 [] (list_objs ?h1 l) = (h2, memo, ys)"
    by (cases "deepcopy_hooks ?h1 [] (list_objs ?h1 l)") auto
  from assms d have h': "h' = h2\<lparr>list_objs := (list_objs h2)(next_free h := ys)\<rparr>"
    and c: "c = ListRef (next_free h)"
    by (simp_all add: deepcopy_def new_list_def)
  note fr = deepcopy_hooks_frame[OF d]
  have fresh: "\<forall>y\<in>set ys. next_free h \<le> y \<and> y < next_free h2"
    using deepcopy_hooks_fresh[OF d, of "next_free h"] by simp
  show ?thesis using h' c fr fresh by auto
qed

lemma deepcopy_list_content:
  assumes "deepcopy h (ListRef l) = (h', c)" and "l < next_free h"
    and "\<forall>x\<in>set (list_objs h l). x < next_free h"
  shows "map (hook_objs h') (list_objs h' (next_free h)) = map (hook_objs h) (list_objs h l)"
proof -
  let ?h1 = "h\<lparr>list_objs := (list_objs h)(next_free h := []), next_free := Suc (next_free h)\<rparr>"
  have l1: "list_objs ?h1 l = list_objs h l" using assms(2) by simp
  obtain h2 memo ys where d: "deepcopy_hooks ?h1 [] (list_objs h l) = (h2, memo, ys)"
    by (cases "deepcopy_hooks ?h1 [] (list_objs h l)") auto
  from assms(1) d l1 have h': "h' = h2\<lparr>list_objs := (list_objs h2)(next_free h := ys)\<rparr>"
    by (simp add: deepcopy_def new_list_def)
  have w: "\<forall>x\<in>set (list_objs h l). x < next_free ?h1" using assms(3) by auto
  have "map (hook_objs h2) ys = map (hook_objs ?h1) (list_objs h l)"
    using deepcopy_hooks_content[OF d w] by simp
  then show ?thesis using h' by simp
qed

lemma deepcopy_is_deep_copy:
  assumes "deepcopy h v = (h', c)"
    and "\<forall>l. v = ListRef l \<longrightarrow> l < next_free h \<and> (\<forall>x\<in>set (list_objs h l). x < next_free h)"
  shows "is_deep_copy h v h' c"
proof (cases "\<exists>l. v = ListRef l")
  case True
  then obtain l where v: "v = ListRef l" by blast
  have a: "deepcopy h (ListRef l) = (h', c)" using assms(1) v by simp
  have w: "l < next_free h" "\<forall>x\<in>set (list_objs h l). x < next_free h" using assms(2) v by auto
  show ?thesis
    using deepcopy_list[OF a] deepcopy_list_content[OF a w] v
    by (auto simp: is_deep_copy_def list_all_iff)
next
  case False
  then have "deepcopy h v = (h, v)" using deepcopy_atom by blast
  with assms(1) False show ?thesis by (cases v) (auto simp: is_deep_copy_def)
qed

lemma delete_keys: "k \<notin> fst ` set (AList.delete k al)"
  by (induction al) (auto simp: AList.delete_eq)

lemmas init_defs = Algorithm_init_def new_list_def new_hook_def deepcopy_def Adder_class_def
  two_hooks_def cfg_defs init_kwargs_def copied_node_def AList.delete_eq

section \<open>Construction of a node\<close>

text \<open>
  Claim C6. When the keyword arguments hold \<^verbatim>\<open>callbacks\<close>, the node's hook list is the
  deep copy of its value, and the configuration record is constructed from the
  arguments without that key (all other keys kept); when they do not, the node's hook
  list is a new empty list and the record is constructed from all the arguments.
\<close>

theorem Algorithm_init_callbacks:
  "(\<forall>v. map_of kwargs ''callbacks'' = Some v \<longrightarrow>
      fst (Algorithm_init C h kwargs) = fst (deepcopy (fst (new_list h [])) v)
      \<and> snd (Algorithm_init C h kwargs) =
          (case ImmutableModel_init (parameters_type C) (AList.delete ''callbacks'' kwargs) of
             Inl e \<Rightarrow> Inl e
           | Inr p \<Rightarrow> Inr \<lparr>node_class = alg_name C,
                           callbacks = snd (deepcopy (fst (new_list h [])) v), params = p\<rparr>)
      \<and> ''callbacks'' \<notin> fst ` set (AList.delete ''callbacks'' kwargs)
      \<and> (\<forall>k. k \<noteq> ''callbacks'' \<longrightarrow>
            map_of (AList.delete ''callbacks'' kwargs) k = map_of kwargs k)
      \<and> ((\<forall>l. v = ListRef l \<longrightarrow>
              l < next_free h \<and> list_all (\<lambda>x. x < next_free h) (list_objs h l)) \<longrightarrow>
           is_deep_copy h v (fst (Algorithm_init C h kwargs))
             (snd (deepcopy (fst (new_list h [])) v))))
   \<and> (map_of kwargs ''callbacks'' = None \<longrightarrow>
      snd (Algorithm_init C h kwargs) =
          (case ImmutableModel_init (parameters_type C) kwargs of
             Inl e \<Rightarrow> Inl e
           | Inr p \<Rightarrow> Inr \<lparr>node_class = alg_name C, callbacks = ListRef (next_free h),
                           params = p\<rparr>)
      \<and> list_objs (fst (Algorithm_init C h kwargs)) (next_free h) = [])"
proof (intro conjI allI impI)
  fix v assume v: "map_of kwargs ''callbacks'' = Some v"
  let ?h0 = "fst (new_list h [])"
  obtain h1 c where d: "deepcopy ?h0 v = (h1, c)" by (cases "deepcopy ?h0 v")
  show f: "fst (Algorithm_init C h kwargs) = fst (deepcopy ?h0 v)"
    using v d by (simp add: Algorithm_init_def new_list_def split: sum.splits)
  show "snd (Algorithm_init C h kwargs) =
          (case ImmutableModel_init (parameters_type C) (AList.delete ''callbacks'' kwargs) of
             Inl e \<Rightarrow> Inl e
           | Inr p \<Rightarrow> Inr \<lparr>node_class = alg_name C,
                           callbacks = snd (deepcopy ?h0 v), params = p\<rparr>)"
    using v d by (simp add: Algorithm_init_def new_list_def split: sum.splits)
  show "''callbacks'' \<notin> fst ` set (AList.delete ''callbacks'' kwargs)"
    by (rule delete_keys)
  show "\<And>k. k \<noteq> ''callbacks'' \<Longrightarrow>
            map_of (AList.delete ''callbacks'' kwargs) k = map_of kwargs k"
    by (simp add: AList.delete_conv')
  assume wf: "\<forall>l. v = ListRef l \<longrightarrow>
              l < next_free h \<and> list_all (\<lambda>x. x < next_free h) (list_objs h l)"
  have wf0: "\<forall>l. v = ListRef l \<longrightarrow>
              l < next_free ?h0 \<and> (\<forall>x\<in>set (list_objs ?h0 l). x < next_free ?h0)"
    using wf by (fastforce simp: new_list_def list_all_iff)
  have dc: "is_deep_copy ?h0 v h1 c" using deepcopy_is_deep_copy[OF d wf0] .
  have "is_deep_copy h v h1 c"
  proof (cases "\<exists>l. v = ListRef l")
    case True
    then obtain l where l: "v = ListRef l" by blast
    then have "l < next_free h" using wf by simp
    then have "list_objs ?h0 l = list_objs h l" "hook_objs ?h0 = hook_objs h"
      "next_free h \<le> next_free ?h0"
      by (simp_all add: new_list_def)
    then show ?thesis using dc l
      by (cases c) (auto simp: is_deep_copy_def list_all_iff)
  next
    case False
    with dc show ?thesis by (cases v) (auto simp: is_deep_copy_def)
  qed
  then show "is_deep_copy h v (fst (Algorithm_init C h kwargs)) (snd (deepcopy ?h0 v))"
    using f d by simp
next
  assume n: "map_of kwargs ''callbacks'' = None"
  show "snd (Algorithm_init C h kwargs) =
          (case ImmutableModel_init (parameters_type C) kwargs of
             Inl e \<Rightarrow> Inl e
           | Inr p \<Rightarrow> Inr \<lparr>node_class = alg_name C, callbacks = ListRef (next_free h),
                           params = p\<rparr>)"
    using n by (simp add: Algorithm_init_def new_list_def split: sum.splits)
  show "list_objs (fst (Algorithm_init C h kwargs)) (next_free h) = []"
    using n by (simp add: Algorithm_init_def new_list_def split: sum.splits)
qed

text \<open>
  \<^verbatim>\<open>Adder(callbacks=hooks, increment=3)\<close> and \<^verbatim>\<open>Adder(increment=3)\<close>.
\<close>

theorem Algorithm_init_callbacks_witness:
  "map_of init_kwargs ''callbacks'' = Some (ListRef 0)
   \<and> snd (Algorithm_init Adder_class (two_hooks False True) init_kwargs) = Inr copied_node
   \<and> AList.delete ''callbacks'' init_kwargs = [(''increment'', IntV 3)]
   \<and> is_deep_copy (two_hooks False True) (ListRef 0)
        (fst (Algorithm_init Adder_class (two_hooks False True) init_kwargs)) (ListRef 4)
   \<and> map_of [(''increment'', IntV 3)] ''callbacks'' = None
   \<and> snd (Algorithm_init Adder_class (two_hooks False True) [(''increment'', IntV 3)])
       = Inr \<lparr>node_class = ''Adder'', callbacks = ListRef 3, params = adder_params 3\<rparr>
   \<and> list_objs (fst (Algorithm_init Adder_class (two_hooks False True)
         [(''increment'', IntV 3)])) 3 = []"
proof -
  have 1: "map_of init_kwargs ''callbacks'' = Some (ListRef 0)" by (simp add: init_kwargs_def)
  have 2: "AList.delete ''callbacks'' init_kwargs = [(''increment'', IntV 3)]"
    by (simp add: init_kwargs_def AList.delete_eq)
  have 3: "snd (deepcopy (fst (new_list (two_hooks False True) [])) (ListRef 0)) = ListRef 4"
    by (simp add: init_defs split: prod.splits)
  have 4: "\<forall>l. ListRef 0 = ListRef l \<longrightarrow> l < next_free (two_hooks False True)
            \<and> list_all (\<lambda>x. x < next_free (two_hooks False True))
                 (list_objs (two_hooks False True) l)"
    by (simp add: two_hooks_def)
  have 5: "map_of [(''increment'', IntV 3)] ''callbacks'' = None" by simp
  have 6: "ImmutableModel_init (parameters_type Adder_class) [(''increment'', IntV 3)]
            = Inr (adder_params 3)"
    by (simp add: Adder_class_def cfg_defs)
  have 7: "alg_name Adder_class = ''Adder''" "next_free (two_hooks False True) = 3"
    by (simp_all add: Adder_class_def two_hooks_def)
  note present = Algorithm_init_callbacks[of init_kwargs Adder_class "two_hooks False True",
      THEN conjunct1, rule_format, OF 1]
  note absent = Algorithm_init_callbacks[of "[(''increment'', IntV 3)]" Adder_class
      "two_hooks False True", THEN conjunct2, rule_format, OF 5]
  have a: "snd (Algorithm_init Adder_class (two_hooks False True) init_kwargs) = Inr copied_node"
    using present 2 3 6 7 by (simp add: copied_node_def)
  have b: "is_deep_copy (two_hooks False True) (ListRef 0)
        (fst (Algorithm_init Adder_class (two_hooks False True) init_kwargs)) (ListRef 4)"
    using present 3 4 by metis
  have c: "snd (Algorithm_init Adder_class (two_hooks False True) [(''increment'', IntV 3)])
       = Inr \<lparr>node_class = ''Adder'', callbacks = ListRef 3, params = adder_params 3\<rparr>"
    using absent 6 7 by simp
  have d: "list_objs (fst (Algorithm_init Adder_class (two_hooks False True)
         [(''increment'', IntV 3)])) 3 = []"
    using absent 7 by simp
  show ?thesis using 1 2 5 a b c d by simp
qed

section \<open>Independence from the caller's hook list\<close>

lemma Algorithm_init_hooks_from:
  assumes "Algorithm_init C h kwargs = (h1, Inr self)"
  shows "hooks_from (next_free h) h1 (callbacks self)"
proof (cases "map_of kwargs ''callbacks''")
  case None
  with assms have "callbacks self = ListRef (next_free h)" "list_objs h1 (next_free h) = []"
    by (auto simp: Algorithm_init_def new_list_def split: sum.splits)
  then show ?thesis by (simp add: hooks_from_def)
next
  case (Some v)
  let ?h0 = "h\<lparr>list_objs := (list_objs h)(next_free h := []), next_free := Suc (next_free h)\<rparr>"
  obtain h' c where d: "deepcopy ?h0 v = (h', c)" by (cases "deepcopy ?h0 v") auto
  with assms Some have s: "callbacks self = c" "h1 = h'"
    by (auto simp: Algorithm_init_def new_list_def split: sum.splits)
  show ?thesis
  proof (cases "\<exists>l. v = ListRef l")
    case True
    then obtain l where v: "v = ListRef l" by blast
    from deepcopy_list[OF d[unfolded v]] show ?thesis using s
      by (auto simp: hooks_from_def list_all_iff)
  next
    case False
    then have "deepcopy ?h0 v = (?h0, v)" using deepcopy_atom by blast
    with d have "c = v" by simp
    with False s show ?thesis by (cases v) (auto simp: hooks_from_def)
  qed
qed

lemma apply_mutations_frame:
  "\<forall>m\<in>set ms. mut_addr m < n \<Longrightarrow> n \<le> x \<Longrightarrow>
     list_objs (apply_mutations ms h) x = list_objs h x
     \<and> hook_objs (apply_mutations ms h) x = hook_objs h x"
proof (induction ms arbitrary: h)
  case Nil
  then show ?case by (simp add: apply_mutations_def)
next
  case (Cons m ms)
  have "list_objs (apply_mutation m h) x = list_objs h x
      \<and> hook_objs (apply_mutation m h) x = hook_objs h x"
    using Cons.prems by (cases m) auto
  moreover have "apply_mutations (m # ms) h = apply_mutations ms (apply_mutation m h)"
    by (simp add: apply_mutations_def)
  ultimately show ?case using Cons.IH[of "apply_mutation m h"] Cons.prems by simp
qed

text \<open>
  Claim C8. After a node is constructed, writes to objects that existed before the
  construction (the caller's hook list and the hooks in it among them) change neither
  the node's hook list nor what \<^verbatim>\<open>execute\<close> calls and returns, whether they happen before
  the first call of \<^verbatim>\<open>execute\<close> or between two calls.
\<close>

theorem hook_list_independent:
  assumes "Algorithm_init C h kwargs = (h1, Inr self)"
    and "\<forall>m\<in>set ms. mut_addr m < next_free h"
  shows "iter_callbacks (apply_mutations ms h1) (callbacks self) = iter_callbacks h1 (callbacks self)
       \<and> trace_of (execute C cb (apply_mutations ms h1) self a)
           = trace_of (execute C cb h1 self a)
       \<and> result_of (execute C cb (apply_mutations ms h1) self a)
           = result_of (execute C cb h1 self a)
       \<and> iter_callbacks (apply_mutations ms (heap_of (execute C cb h1 self a))) (callbacks self)
           = iter_callbacks h1 (callbacks self)
       \<and> trace_of (execute C cb (apply_mutations ms (heap_of (execute C cb h1 self a))) self a')
           = trace_of (execute C cb (heap_of (execute C cb h1 self a)) self a')
       \<and> result_of (execute C cb (apply_mutations ms (heap_of (execute C cb h1 self a))) self a')
           = result_of (execute C cb (heap_of (execute C cb h1 self a)) self a')"
proof -
  let ?n = "next_free h"
  let ?h2 = "heap_of (execute C cb h1 self a)"
  have own: "hooks_from ?n h1 (callbacks self)" using Algorithm_init_hooks_from[OF assms(1)] .
  have own2: "hooks_from ?n ?h2 (callbacks self)"
    using own hooks_from_lists[OF execute_lists] by blast
  have ag: "\<And>g. \<forall>x. ?n \<le> x \<longrightarrow> list_objs (apply_mutations ms g) x = list_objs g x
                  \<and> hook_objs (apply_mutations ms g) x = hook_objs g x"
    using apply_mutations_frame[OF assms(2)] by blast
  have l2: "iter_callbacks ?h2 (callbacks self) = iter_callbacks h1 (callbacks self)"
    using iter_callbacks_lists[OF execute_lists] .
  show ?thesis
    using iter_callbacks_agree[OF own, of "apply_mutations ms h1"]
      iter_callbacks_agree[OF own2, of "apply_mutations ms ?h2"]
      execute_agree[OF own ag, of C cb a] execute_agree[OF own2 ag, of C cb a'] ag l2
    by metis
qed

text \<open>
  The caller rewrites its list and arms its hooks; the node still calls its two quiet
  copies.
\<close>

theorem hook_list_independent_witness:
  "Algorithm_init Adder_class (two_hooks False False) init_kwargs
     = (fst (Algorithm_init Adder_class (two_hooks False False) init_kwargs), Inr copied_node)
   \<and> list_all (\<lambda>m. mut_addr m < next_free (two_hooks False False)) later_writes
   \<and> iter_callbacks (apply_mutations later_writes
          (fst (Algorithm_init Adder_class (two_hooks False False) init_kwargs)))
        (callbacks copied_node) = Inr [5, 6]
   \<and> trace_of (execute Adder_class armed_Callback (apply_mutations later_writes
          (fst (Algorithm_init Adder_class (two_hooks False False) init_kwargs)))
        copied_node (one_arg 5))
      = [OnExecuteStart 5 (one_arg 5), OnExecuteStart 6 (one_arg 5), Run (one_arg 5),
         OnExecuteEnd 5 (IntV 8), OnExecuteEnd 6 (IntV 8)]
   \<and> result_of (execute Adder_class armed_Callback (apply_mutations later_writes
          (fst (Algorithm_init Adder_class (two_hooks False False) init_kwargs)))
        copied_node (one_arg 5)) = Inr (IntV 8)"
proof -
  let ?h1 = "fst (Algorithm_init Adder_class (two_hooks False False) init_kwargs)"
  have s: "snd (Algorithm_init Adder_class (two_hooks False False) init_kwargs) = Inr copied_node"
    by (simp add: init_defs)
  have 1: "Algorithm_init Adder_class (two_hooks False False) init_kwargs = (?h1, Inr copied_node)"
    using s by (simp add: prod_eq_iff)
  have 2: "\<forall>m\<in>set later_writes. mut_addr m < next_free (two_hooks False False)"
    by (simp add: later_writes_def two_hooks_def)
  have h: "list_objs ?h1 4 = [5, 6]" "hook_objs ?h1 5 = False" "hook_objs ?h1 6 = False"
    by (simp_all add: init_defs)
  have i: "iter_callbacks ?h1 (callbacks copied_node) = Inr [5, 6]"
    using h by (simp add: copied_node_def)
  have r: "run Adder_class copied_node (one_arg 5) = Inr (IntV 8)"
    by (simp add: run_def Adder_class_def Adder_run_def copied_node_def adder_params_def
        one_arg_def getattr_def)
  have t: "trace_of (execute Adder_class armed_Callback ?h1 copied_node (one_arg 5))
      = [OnExecuteStart 5 (one_arg 5), OnExecuteStart 6 (one_arg 5), Run (one_arg 5),
         OnExecuteEnd 5 (IntV 8), OnExecuteEnd 6 (IntV 8)]
    \<and> result_of (execute Adder_class armed_Callback ?h1 copied_node (one_arg 5)) = Inr (IntV 8)"
    using h by (simp add: execute_def trace_of_def result_of_def armed_Callback_def
        run_def Adder_class_def Adder_run_def copied_node_def adder_params_def
        one_arg_def getattr_def)
  show ?thesis
    using hook_list_independent[OF 1 2, of armed_Callback "one_arg 5" "one_arg 5"] 1 2 i t
    by (simp add: list_all_iff)
qed

section \<open>The resolver\<close>

text \<open>
  Claim C4, amended. When the lookup finds nothing under the identifier, the resolver
  raises \<open>ValueError\<close> with a message that holds the identifier, in an unchanged state;
  when the lookup itself raises, the resolver raises that exception, in an unchanged
  state; when an object is located, the resolver is the call of that object with the same
  keyword arguments: the same instance, or the same exception.
\<close>

theorem instantiate_class_from_name_cases:
  "(locate class_name = Inr None \<longrightarrow>
      instantiate_class_from_name locate construct class_name kwargs s
        = (s, Inl (ValueError (''Could not locate class '' @ class_name)))
      \<and> names_type (ValueError (''Could not locate class '' @ class_name)) class_name)
   \<and> (\<forall>e. locate class_name = Inl e \<longrightarrow>
      instantiate_class_from_name locate construct class_name kwargs s = (s, Inl e))
   \<and> (\<forall>c. locate class_name = Inr (Some c) \<longrightarrow>
      instantiate_class_from_name locate construct class_name kwargs s = construct c kwargs s)"
proof -
  have "sublist class_name (''Could not locate class '' @ class_name @ [])"
    by (rule sublist_appendI)
  then have "names_type (ValueError (''Could not locate class '' @ class_name)) class_name"
    by (simp add: names_type_def)
  then show ?thesis by (simp add: instantiate_class_from_name_def)
qed

text \<open>
  An unknown identifier, an identifier whose module raises while it is imported, and
  \<^verbatim>\<open>Adder(increment="x")\<close> through the resolver.
\<close>

theorem instantiate_class_from_name_cases_witness:
  "locate_in [(''iris.Adder'', Adder_class)] ''iris.Missing'' = Inr None
   \<and> instantiate_class_from_name (locate_in [(''iris.Adder'', Adder_class)])
        (\<lambda>c kw h. Algorithm_init c h kw) ''iris.Missing'' [] (two_hooks False False)
      = (two_hooks False False, Inl (ValueError ''Could not locate class iris.Missing''))
   \<and> broken_locate ''vbroken.X''
      = Inl (ErrorDuringImport ''problem in vbroken - ZeroDivisionError: division by zero'')
   \<and> instantiate_class_from_name broken_locate
        (\<lambda>c kw h. Algorithm_init c h kw) ''vbroken.X'' [] (two_hooks False False)
      = (two_hooks False False,
         Inl (ErrorDuringImport ''problem in vbroken - ZeroDivisionError: division by zero''))
   \<and> locate_in [(''iris.Adder'', Adder_class)] ''iris.Adder'' = Inr (Some Adder_class)
   \<and> instantiate_class_from_name (locate_in [(''iris.Adder'', Adder_class)])
        (\<lambda>c kw h. Algorithm_init c h kw) ''iris.Adder'' [(''increment'', StrV ''x'')]
        (two_hooks False False)
      = Algorithm_init Adder_class (two_hooks False False) [(''increment'', StrV ''x'')]
   \<and> snd (Algorithm_init Adder_class (two_hooks False False) [(''increment'', StrV ''x'')])
      = Inl (ValidationError ''Parameters'' [''increment''])"
proof -
  have 1: "locate_in [(''iris.Adder'', Adder_class)] ''iris.Missing'' = Inr None"
    by (simp add: locate_in_def)
  have 2: "locate_in [(''iris.Adder'', Adder_class)] ''iris.Adder'' = Inr (Some Adder_class)"
    by (simp add: locate_in_def)
  have 3: "snd (Algorithm_init Adder_class (two_hooks False False) [(''increment'', StrV ''x'')])
      = Inl (ValidationError ''Parameters'' [''increment''])"
    by (simp add: Algorithm_init_def new_list_def Adder_class_def cfg_defs)
  have 4: "broken_locate ''vbroken.X''
      = Inl (ErrorDuringImport ''problem in vbroken - ZeroDivisionError: division by zero'')"
    by (simp add: broken_locate_def)
  show ?thesis
    using instantiate_class_from_name_cases[of "locate_in [(''iris.Adder'', Adder_class)]"
        "''iris.Missing''" "\<lambda>c kw h. Algorithm_init c h kw" "[]" "two_hooks False False"]
      instantiate_class_from_name_cases[of "locate_in [(''iris.Adder'', Adder_class)]"
        "''iris.Adder''" "\<lambda>c kw h. Algorithm_init c h kw" "[(''increment'', StrV ''x'')]"
        "two_hooks False False"]
      instantiate_class_from_name_cases[of broken_locate "''vbroken.X''"
        "\<lambda>c kw h. Algorithm_init c h kw" "[]" "two_hooks False False"]
      1 2 3 4
    by simp
qed

text \<open>
  Claim C4 as stated fails. Under \<^verbatim>\<open>vbroken.X\<close> no type is located, because importing
  \<^verbatim>\<open>vbroken\<close> raises; the resolver raises \<open>ErrorDuringImport\<close>, not \<open>ValueError\<close>, and the
  message does not hold the identifier.
\<close>

theorem locate_raises_counterexample:
  "instantiate_class_from_name broken_locate (\<lambda>c kw h. Algorithm_init c h kw)
      ''vbroken.X'' [] (two_hooks False False)
     = (two_hooks False False,
        Inl (ErrorDuringImport ''problem in vbroken - ZeroDivisionError: division by zero''))
   \<and> \<not> names_type
         (ErrorDuringImport ''problem in vbroken - ZeroDivisionError: division by zero'')
         ''vbroken.X''"
proof -
  have "\<not> sublist ''vbroken.X'' ''problem in vbroken - ZeroDivisionError: division by zero''"
    by code_simp
  then show ?thesis
    by (simp add: instantiate_class_from_name_def broken_locate_def names_type_def)
qed

end
